theory Spec2Isabelle
  imports Main "HOL-Library.Word"
begin

unbundle bit_operations_syntax

section \<open>Machine types\<close>

text \<open>
  Modelled from the spec: \<open>uint_t\<close>, whose declaration (kernel/riscv.h) is not among the
  sources.  The specification calls the members of an argument block machine-word-sized
  values.  The chip is pulp_open, a 32-bit RISC-V target (ILP32): \<open>int\<close>, \<open>long\<close>,
  pointers, \<open>size_t\<close> and \<open>uint_t\<close> are all 32 bits wide, and \<open>char\<close> is an unsigned byte.
  A C \<open>int\<close> is a 32-bit word read through \<open>sint\<close>; the conversions between \<open>int\<close>,
  \<open>long\<close> and \<open>uint_t\<close> keep the width and are written \<open>scast\<close> (from a signed type) and
  \<open>ucast\<close> (from an unsigned one), where the source writes its casts.
\<close>

type_synonym word_t = "32 word"
type_synonym byte = "8 word"

section \<open>kernel/semihost.h: the trap and the semihosting operations\<close>

datatype semihosting_operation_numbers =
    SEMIHOSTING_ENTER_SVC
  | SEMIHOSTING_SYS_CLOCK
  | SEMIHOSTING_SYS_ELAPSED
  | SEMIHOSTING_SYS_ERRNO
  | SEMIHOSTING_SYS_EXIT
  | SEMIHOSTING_SYS_EXIT_EXTENDED
  | SEMIHOSTING_SYS_FLEN
  | SEMIHOSTING_SYS_GET_CMDLINE
  | SEMIHOSTING_SYS_HEAPINFO
  | SEMIHOSTING_SYS_ISERROR
  | SEMIHOSTING_SYS_ISTTY
  | SEMIHOSTING_SYS_OPEN
  | SEMIHOSTING_SYS_CLOSE
  | SEMIHOSTING_SYS_READ
  | SEMIHOSTING_SYS_READC
  | SEMIHOSTING_SYS_REMOVE
  | SEMIHOSTING_SYS_RENAME
  | SEMIHOSTING_SYS_SEEK
  | SEMIHOSTING_SYS_WRITE
  | SEMIHOSTING_SYS_WRITEC
  | SEMIHOSTING_SYS_WRITE0
  | SEMIHOSTING_SYS_SYSTEM
  | SEMIHOSTING_SYS_TICKFREQ
  | SEMIHOSTING_SYS_TIME
  | SEMIHOSTING_SYS_TMPNAM

text \<open>The value of each enumerator, as the enum declares it.\<close>

fun op_number :: "semihosting_operation_numbers \<Rightarrow> word_t" where
  "op_number SEMIHOSTING_ENTER_SVC = 0x17"
| "op_number SEMIHOSTING_SYS_CLOCK = 0x10"
| "op_number SEMIHOSTING_SYS_ELAPSED = 0x30"
| "op_number SEMIHOSTING_SYS_ERRNO = 0x13"
| "op_number SEMIHOSTING_SYS_EXIT = 0x18"
| "op_number SEMIHOSTING_SYS_EXIT_EXTENDED = 0x20"
| "op_number SEMIHOSTING_SYS_FLEN = 0x0C"
| "op_number SEMIHOSTING_SYS_GET_CMDLINE = 0x15"
| "op_number SEMIHOSTING_SYS_HEAPINFO = 0x16"
| "op_number SEMIHOSTING_SYS_ISERROR = 0x08"
| "op_number SEMIHOSTING_SYS_ISTTY = 0x09"
| "op_number SEMIHOSTING_SYS_OPEN = 0x01"
| "op_number SEMIHOSTING_SYS_CLOSE = 0x02"
| "op_number SEMIHOSTING_SYS_READ = 0x06"
| "op_number SEMIHOSTING_SYS_READC = 0x07"
| "op_number SEMIHOSTING_SYS_REMOVE = 0x0E"
| "op_number SEMIHOSTING_SYS_RENAME = 0x0F"
| "op_number SEMIHOSTING_SYS_SEEK = 0x0A"
| "op_number SEMIHOSTING_SYS_WRITE = 0x05"
| "op_number SEMIHOSTING_SYS_WRITEC = 0x03"
| "op_number SEMIHOSTING_SYS_WRITE0 = 0x04"
| "op_number SEMIHOSTING_SYS_SYSTEM = 0x12"
| "op_number SEMIHOSTING_SYS_TICKFREQ = 0x31"
| "op_number SEMIHOSTING_SYS_TIME = 0x11"
| "op_number SEMIHOSTING_SYS_TMPNAM = 0x0D"

definition SEMIHOST_EXIT_SUCCESS :: word_t where
  "SEMIHOST_EXIT_SUCCESS = 0x20026"

definition SEMIHOST_EXIT_ERROR :: word_t where
  "SEMIHOST_EXIT_ERROR = 0x20023"

text \<open>
  Register a1 of a trap holds either a scalar or the address of a local array \<open>args\<close>.
  The address of a stack array is the compiler's choice, so the model passes what the
  host finds behind it: \<open>Block ws\<close> is the address of an array holding the words \<open>ws\<close>,
  \<open>Scalar w\<close> is the plain value \<open>w\<close>.
\<close>

datatype trap_arg = Scalar word_t | Block "word_t list"

record trap_call =
  reg_a0 :: word_t
  reg_a1 :: trap_arg

text \<open>
  What the program does that an observer outside it can see, in program order: a store
  of a byte at \<open>__pi_libc_buffer + i\<close> (\<open>Store i b\<close>), whether or not the offset is inside
  the array, and a trap (\<open>Trap call mem\<close>), taken with the elements \<open>mem\<close> of the array as
  they stand when the \<open>ebreak\<close> executes.
\<close>

datatype event = Store int byte | Trap trap_call "int \<Rightarrow> byte"

text \<open>
  The state of the program: the two static variables of hal.c and the events so far.
  \<open>pi_libc_buffer m i\<close>, for \<open>0 \<le> i < 128\<close>, is the element \<open>__pi_libc_buffer[i]\<close>; the map
  says nothing about the memory outside the array.
\<close>

record machine =
  pi_libc_buffer :: "int \<Rightarrow> byte"
  pi_libc_buffer_index :: word_t
  trace :: "event list"

text \<open>
  The surroundings of the program: the debug host that services a trap, the address the
  linker gave \<open>__pi_libc_buffer\<close>, and what a store through \<open>buffer\<close> at an offset
  outside the array does to \<open>__pi_libc_buffer_index\<close>.  The host sees everything the
  program has done up to and including the trap, and leaves a value in a0; nothing is
  assumed about it.  \<open>oob_index e i b w\<close> is the value of the index after the byte \<open>b\<close> was
  stored at \<open>__pi_libc_buffer + i\<close>, \<open>i\<close> outside the array, when it was \<open>w\<close> before: it
  depends on where the linker put the index, and nothing is assumed about it either.
\<close>

record env =
  host :: "event list \<Rightarrow> word_t"
  buffer_addr :: word_t
  oob_index :: "int \<Rightarrow> byte \<Rightarrow> word_t \<Rightarrow> word_t"

text \<open>
  Two layouts.  The index far from the array: no store through \<open>buffer\<close> reaches it.  The
  index right behind the array, at \<open>__pi_libc_buffer + 128\<close>, little endian as RISC-V is:
  a store at offset \<open>128 + j\<close>, \<open>j < 4\<close>, replaces byte \<open>j\<close> of the index.
\<close>

definition index_elsewhere :: "int \<Rightarrow> byte \<Rightarrow> word_t \<Rightarrow> word_t" where
  "index_elsewhere i b w = w"

definition index_after_array :: "int \<Rightarrow> byte \<Rightarrow> word_t \<Rightarrow> word_t" where
  "index_after_array i b w =
     (if 128 \<le> i \<and> i < 132
      then (w AND NOT (push_bit (8 * nat (i - 128)) 255)) OR push_bit (8 * nat (i - 128)) (ucast b)
      else w)"

text \<open>
  \<open>__pi_libc_semihost(n, _a1)\<close>: a0 := n, a1 := _a1, the \<open>ebreak\<close> sequence, return a0.
\<close>

definition pi_libc_semihost :: "env \<Rightarrow> word_t \<Rightarrow> trap_arg \<Rightarrow> machine \<Rightarrow> word_t \<times> machine" where
  "pi_libc_semihost e n a1 m =
     (let call = \<lparr>reg_a0 = n, reg_a1 = a1\<rparr>;
          m' = m\<lparr>trace := trace m @ [Trap call (pi_libc_buffer m)]\<rparr>
      in (host e (trace m'), m'))"

text \<open>
  Modelled from the spec: \<open>strlen\<close>, which the sources call and do not define
  (string.h).  It works on the bytes of the object a \<open>const char *\<close> points into, from the
  pointer to the end of the object, and counts the bytes before the first NUL.  An
  object without a NUL is no C string (\<open>None\<close>: the scan leaves the object).
\<close>

fun strlen :: "byte list \<Rightarrow> nat option" where
  "strlen [] = None"
| "strlen (c # s) = (if c = 0 then Some 0 else map_option Suc (strlen s))"

text \<open>
  \<open>__pi_libc_semihost_open(name, mode)\<close>; \<open>name_addr\<close> is the pointer's value and \<open>name\<close>
  the bytes it points to.  \<open>uint_t len = strlen(name)\<close> converts a \<open>size_t\<close> to 32 bits.
\<close>

definition pi_libc_semihost_open ::
  "env \<Rightarrow> word_t \<Rightarrow> byte list \<Rightarrow> word_t \<Rightarrow> machine \<Rightarrow> (word_t \<times> machine) option" where
  "pi_libc_semihost_open e name_addr name mode m =
     (case strlen name of
        None \<Rightarrow> None
      | Some n \<Rightarrow>
          (let len = (of_nat n :: word_t);
               args = [ucast (scast name_addr :: word_t), ucast mode, len];
               (r, m') = pi_libc_semihost e (op_number SEMIHOSTING_SYS_OPEN) (Block args) m
           in Some (scast r, m')))"

definition pi_libc_semihost_close :: "env \<Rightarrow> word_t \<Rightarrow> machine \<Rightarrow> word_t \<times> machine" where
  "pi_libc_semihost_close e fd m =
     (let (r, m') = pi_libc_semihost e (op_number SEMIHOSTING_SYS_CLOSE) (Scalar (scast fd)) m
      in (scast r, m'))"

definition pi_libc_semihost_write ::
  "env \<Rightarrow> word_t \<Rightarrow> word_t \<Rightarrow> word_t \<Rightarrow> machine \<Rightarrow> word_t \<times> machine" where
  "pi_libc_semihost_write e fd buffer len m =
     (let args = [ucast (scast fd :: word_t), ucast (scast buffer :: word_t),
                  ucast (scast len :: word_t)];
          (r, m') = pi_libc_semihost e (op_number SEMIHOSTING_SYS_WRITE) (Block args) m
      in (scast r, m'))"

definition pi_libc_semihost_seek ::
  "env \<Rightarrow> word_t \<Rightarrow> word_t \<Rightarrow> machine \<Rightarrow> word_t \<times> machine" where
  "pi_libc_semihost_seek e fd pos m =
     (let args = [ucast (scast fd :: word_t), pos];
          (r, m') = pi_libc_semihost e (op_number SEMIHOSTING_SYS_SEEK) (Block args) m
      in (scast r, m'))"

definition pi_libc_semihost_flen :: "env \<Rightarrow> word_t \<Rightarrow> machine \<Rightarrow> word_t \<times> machine" where
  "pi_libc_semihost_flen e fd m =
     (let (r, m') = pi_libc_semihost e (op_number SEMIHOSTING_SYS_FLEN) (Scalar (scast fd)) m
      in (scast r, m'))"

definition pi_libc_semihost_exit :: "env \<Rightarrow> word_t \<Rightarrow> machine \<Rightarrow> word_t \<times> machine" where
  "pi_libc_semihost_exit e code m =
     (let (r, m') = pi_libc_semihost e (op_number SEMIHOSTING_SYS_EXIT) (Scalar (scast code)) m
      in (scast r, m'))"

section \<open>chips/pulp_open/kernel/hal.h\<close>

definition PI_LIBC_PUTC_BUFFER_SIZE :: word_t where
  "PI_LIBC_PUTC_BUFFER_SIZE = 128"

text \<open>\<open>while(1);\<close> never returns: its value is \<open>None\<close>.\<close>

partial_function (option) spin_forever :: "unit \<Rightarrow> unit option" where
  "spin_forever u = spin_forever u"

text \<open>
  \<open>__pi_init_platform_exit(status)\<close>: the state after the trap, and whether control
  returns to the caller (\<open>None\<close>: it does not).
\<close>

definition pi_init_platform_exit :: "env \<Rightarrow> word_t \<Rightarrow> machine \<Rightarrow> machine \<times> unit option" where
  "pi_init_platform_exit e status m =
     (let (r, m') = pi_libc_semihost_exit e
                      (if status = 0 then SEMIHOST_EXIT_SUCCESS else SEMIHOST_EXIT_ERROR) m
      in (m', spin_forever ()))"

text \<open>\<open>__pi_libc_write(fd, buffer, len)\<close> returns nothing: the host's count is dropped.\<close>

definition pi_libc_write :: "env \<Rightarrow> word_t \<Rightarrow> word_t \<Rightarrow> word_t \<Rightarrow> machine \<Rightarrow> machine" where
  "pi_libc_write e fd buffer len m = snd (pi_libc_semihost_write e fd buffer len m)"

section \<open>chips/pulp_open/kernel/hal.c: the buffered console\<close>

text \<open>An offset inside \<open>char __pi_libc_buffer[PI_LIBC_PUTC_BUFFER_SIZE]\<close>.\<close>

definition in_array :: "int \<Rightarrow> bool" where
  "in_array i = (0 \<le> i \<and> i < sint PI_LIBC_PUTC_BUFFER_SIZE)"

text \<open>
  \<open>buffer[i] = v\<close>, the index \<open>i\<close> a signed \<open>int\<close>, the value converted to \<open>char\<close>.  Inside
  the array the store sets the element.  Outside it leaves the array as it is and does
  to the index what the layout says.
\<close>

definition store_buffer :: "env \<Rightarrow> word_t \<Rightarrow> word_t \<Rightarrow> machine \<Rightarrow> machine" where
  "store_buffer e i v m =
     (let m' = m\<lparr>trace := trace m @ [Store (sint i) (ucast v)]\<rparr>
      in if in_array (sint i)
         then m'\<lparr>pi_libc_buffer := (pi_libc_buffer m)(sint i := ucast v)\<rparr>
         else m'\<lparr>pi_libc_buffer_index :=
                   oob_index e (sint i) (ucast v) (pi_libc_buffer_index m)\<rparr>)"

text \<open>The static initialisers: the array zeroed with the BSS, the index 0.\<close>

definition machine_init :: machine where
  "machine_init = \<lparr>pi_libc_buffer = (\<lambda>i. 0), pi_libc_buffer_index = 0, trace = []\<rparr>"

text \<open>
  \<open>__pi_libc_fputc_safe(c, stream)\<close>, statement by statement.  The comparison with
  the newline (10) is on the \<open>int\<close> argument; the byte stored is its conversion to \<open>char\<close>.
  Every \<open>*index\<close> is read where the source reads it: the increment after the first
  store, the length of the write after the terminator store.
\<close>

definition pi_libc_fputc_safe :: "env \<Rightarrow> word_t \<Rightarrow> word_t \<Rightarrow> machine \<Rightarrow> word_t \<times> machine" where
  "pi_libc_fputc_safe e c stream m =
     (let m1 = store_buffer e (pi_libc_buffer_index m) c m;
          m2 = m1\<lparr>pi_libc_buffer_index := pi_libc_buffer_index m1 + 1\<rparr>
      in if pi_libc_buffer_index m2 = PI_LIBC_PUTC_BUFFER_SIZE \<or> c = 10 then
           (let m3 = store_buffer e (pi_libc_buffer_index m2) 0 m2;
                m4 = pi_libc_write e 1 (buffer_addr e) (pi_libc_buffer_index m3) m3;
                m5 = m4\<lparr>pi_libc_buffer_index := 0\<rparr>
            in (0, m5))
         else (0, m2))"

section \<open>lib/libc/minimal/io.c\<close>

text \<open>
  \<open>puts(s)\<close>, on the bytes of the object \<open>s\<close> points into.  \<open>char c = *s\<close> is promoted to
  \<open>int\<close> without sign (\<open>char\<close> is unsigned on RISC-V).  Reading past the end of an object
  that holds no NUL is \<open>None\<close>.  \<open>NULL\<close> is 0.
\<close>

fun puts_loop :: "env \<Rightarrow> byte list \<Rightarrow> machine \<Rightarrow> machine option" where
  "puts_loop e [] m = None"
| "puts_loop e (c # s) m =
     (if c = 0 then Some (snd (pi_libc_fputc_safe e 10 0 m))
      else puts_loop e s (snd (pi_libc_fputc_safe e (ucast c) 0 m)))"

definition puts :: "env \<Rightarrow> byte list \<Rightarrow> machine \<Rightarrow> (word_t \<times> machine) option" where
  "puts e s m = map_option (\<lambda>m'. (0, m')) (puts_loop e s m)"

definition fputc :: "env \<Rightarrow> word_t \<Rightarrow> word_t \<Rightarrow> machine \<Rightarrow> word_t \<times> machine" where
  "fputc e c stream m = (0, snd (pi_libc_fputc_safe e c 0 m))"

section \<open>Notions the statements use\<close>

text \<open>A sequence of \<open>put_char\<close> calls, one per character, each with a \<open>NULL\<close> stream.\<close>

definition fputc_seq :: "env \<Rightarrow> word_t list \<Rightarrow> machine \<Rightarrow> machine" where
  "fputc_seq e cs m = foldl (\<lambda>m c. snd (pi_libc_fputc_safe e c 0 m)) m cs"

text \<open>The traps of a trace, in order, without the memory they were taken with.\<close>

fun trap_calls :: "event list \<Rightarrow> trap_call list" where
  "trap_calls [] = []"
| "trap_calls (Store i b # tr) = trap_calls tr"
| "trap_calls (Trap call mem # tr) = call # trap_calls tr"

text \<open>The offsets of the stores of a trace, in order.\<close>

fun store_offsets :: "event list \<Rightarrow> int list" where
  "store_offsets [] = []"
| "store_offsets (Store i b # tr) = i # store_offsets tr"
| "store_offsets (Trap call mem # tr) = store_offsets tr"

text \<open>
  What a host that services \<open>SYS_WRITE\<close> transmits: it reads the block \<open>{fd, p, n}\<close> and
  takes \<open>n\<close> bytes from address \<open>p\<close>, here in the array \<open>__pi_libc_buffer\<close>, which stands at
  address \<open>baddr\<close>.  The statements use it for writes of at most 128 bytes from the start
  of the array.
\<close>

definition write_payload :: "word_t \<Rightarrow> trap_call \<Rightarrow> (int \<Rightarrow> byte) \<Rightarrow> byte list" where
  "write_payload baddr call mem =
     (case reg_a1 call of
        Block [fd, p, n] \<Rightarrow> map (\<lambda>i. mem (sint (p - baddr) + int i)) [0..<unat n]
      | _ \<Rightarrow> [])"


text \<open>A mock host decoding a three-word argument block.\<close>

definition mock_decode3 :: "trap_call \<Rightarrow> (word_t \<times> word_t \<times> word_t) option" where
  "mock_decode3 call =
     (case reg_a1 call of Block [w0, w1, w2] \<Rightarrow> Some (w0, w1, w2) | _ \<Rightarrow> None)"

text \<open>
  The console as the specification words it: the characters appended and not yet
  flushed, emptied when the cursor reaches capacity or the character is a newline.
\<close>

definition pending_step :: "word_t list \<Rightarrow> word_t \<Rightarrow> word_t list" where
  "pending_step p c = (if length p + 1 = 128 \<or> c = 10 then [] else p @ [c])"

definition pending :: "word_t list \<Rightarrow> word_t list" where
  "pending cs = foldl pending_step [] cs"

text \<open>An \<open>int\<close> that holds a character: the promotion of a signed or an unsigned \<open>char\<close>.\<close>

definition is_char :: "word_t \<Rightarrow> bool" where
  "is_char c = (- 128 \<le> sint c \<and> sint c \<le> 255)"

text \<open>
  What the proofs name: the state after the characters \<open>cs\<close> went into the slots from \<open>n\<close>
  on with no flush, the array a flushing call leaves, and the length it passes.
\<close>

definition appended :: "machine \<Rightarrow> nat \<Rightarrow> word_t list \<Rightarrow> machine" where
  "appended m n cs =
     m\<lparr>pi_libc_buffer :=
         (\<lambda>i. if int n \<le> i \<and> i < int n + int (length cs) then ucast (cs ! nat (i - int n))
              else pi_libc_buffer m i),
       pi_libc_buffer_index := of_nat (n + length cs),
       trace := trace m @ map (\<lambda>j. Store (int n + int j) (ucast (cs ! j))) [0..<length cs]\<rparr>"

definition flush_mem :: "machine \<Rightarrow> word_t \<Rightarrow> int \<Rightarrow> byte" where
  "flush_mem m c =
     (let f = (pi_libc_buffer m)(sint (pi_libc_buffer_index m) := ucast c)
      in if in_array (sint (pi_libc_buffer_index m + 1))
         then f(sint (pi_libc_buffer_index m + 1) := 0) else f)"

definition flush_len :: "env \<Rightarrow> machine \<Rightarrow> word_t" where
  "flush_len e m =
     (if in_array (sint (pi_libc_buffer_index m + 1)) then pi_libc_buffer_index m + 1
      else oob_index e (sint (pi_libc_buffer_index m + 1)) 0 (pi_libc_buffer_index m + 1))"

text \<open>The invariant of the console between two calls, \<open>p\<close> the characters not yet flushed.\<close>

definition console_inv :: "word_t list \<Rightarrow> machine \<Rightarrow> bool" where
  "console_inv p m =
     (length p < 128 \<and> pi_libc_buffer_index m = of_nat (length p)
      \<and> map (\<lambda>i. pi_libc_buffer m (int i)) [0..<length p] = map ucast p)"

section \<open>Small words\<close>

lemma unat_small: "n < 2 ^ 32 \<Longrightarrow> unat (of_nat n :: word_t) = n"
  by (simp add: unat_of_nat)

lemma sint_small: "n < 2 ^ 31 \<Longrightarrow> sint (of_nat n :: word_t) = int n"
proof -
  assume a: "n < 2 ^ 31"
  then have u: "uint (of_nat n :: word_t) = int n"
    by (simp add: uint_nat unat_of_nat)
  have "signed_take_bit 31 (int n) = int n"
    using a by (intro signed_take_bit_int_eq_self) simp_all
  with u show ?thesis
    by (simp add: sint_uint)
qed

lemma of_nat_128: "n \<le> 128 \<Longrightarrow> ((of_nat n :: word_t) = 128) = (n = 128)"
  using word_of_nat_eq_iff [where 'a=32, of n 128] by (simp add: take_bit_nat_eq_self)

lemma sint_small_succ: "n < 128 \<Longrightarrow> sint (of_nat n + 1 :: word_t) = int n + 1"
  using sint_small [of "Suc n"] by (simp add: add.commute)

lemma unat_small_succ: "n < 128 \<Longrightarrow> unat (of_nat n + 1 :: word_t) = Suc n"
  using unat_small [of "Suc n"] by (simp add: add.commute)

lemma in_array_small: "in_array (sint (of_nat n :: word_t)) = (n < 128)" if "n \<le> 128"
  using that sint_small [of n] by (simp add: in_array_def PI_LIBC_PUTC_BUFFER_SIZE_def)

lemma in_array_small_succ: "in_array (sint (of_nat n + 1 :: word_t)) = (n < 127)" if "n < 128"
  using that sint_small_succ [of n] by (auto simp add: in_array_def PI_LIBC_PUTC_BUFFER_SIZE_def)

lemma index_after_array_capacity: "index_after_array 128 0 128 = 0"
  by (simp add: index_after_array_def)

section \<open>One call of the console\<close>

lemma trap_calls_append: "trap_calls (xs @ ys) = trap_calls xs @ trap_calls ys"
  by (induction xs rule: trap_calls.induct) simp_all

lemma store_offsets_append: "store_offsets (xs @ ys) = store_offsets xs @ store_offsets ys"
  by (induction xs rule: store_offsets.induct) simp_all


lemma fputc_safe_no_flush:
  assumes "in_array (sint (pi_libc_buffer_index m))"
      and "pi_libc_buffer_index m + 1 \<noteq> 128" and "c \<noteq> 10"
  shows "snd (pi_libc_fputc_safe e c s m) =
           m\<lparr>pi_libc_buffer := (pi_libc_buffer m)(sint (pi_libc_buffer_index m) := ucast c),
             pi_libc_buffer_index := pi_libc_buffer_index m + 1,
             trace := trace m @ [Store (sint (pi_libc_buffer_index m)) (ucast c)]\<rparr>"
  using assms
  by (simp add: pi_libc_fputc_safe_def store_buffer_def PI_LIBC_PUTC_BUFFER_SIZE_def Let_def)

lemma fputc_safe_flush:
  assumes "in_array (sint (pi_libc_buffer_index m))"
      and "pi_libc_buffer_index m + 1 = 128 \<or> c = 10"
  shows "snd (pi_libc_fputc_safe e c s m) =
           m\<lparr>pi_libc_buffer := flush_mem m c,
             pi_libc_buffer_index := 0,
             trace := trace m @
               [Store (sint (pi_libc_buffer_index m)) (ucast c),
                Store (sint (pi_libc_buffer_index m + 1)) 0,
                Trap \<lparr>reg_a0 = 5, reg_a1 = Block [1, buffer_addr e, flush_len e m]\<rparr>
                  (flush_mem m c)]\<rparr>"
  using assms
  by (auto simp add: pi_libc_fputc_safe_def store_buffer_def PI_LIBC_PUTC_BUFFER_SIZE_def Let_def
      pi_libc_write_def pi_libc_semihost_write_def pi_libc_semihost_def flush_mem_def
      flush_len_def)

section \<open>Sequences of calls\<close>

lemma fputc_seq_snoc:
  "fputc_seq e (cs @ [c]) m = snd (pi_libc_fputc_safe e c 0 (fputc_seq e cs m))"
  by (simp add: fputc_seq_def)

lemma fputc_seq_no_flush:
  assumes "pi_libc_buffer_index m = of_nat n"
  shows "n + length cs < 128 \<Longrightarrow> \<forall>c\<in>set cs. c \<noteq> 10 \<Longrightarrow> fputc_seq e cs m = appended m n cs"
proof (induction cs rule: rev_induct)
  case Nil
  have "(\<lambda>i. if int n \<le> i \<and> i < int n then ucast (([]::word_t list) ! nat (i - int n))
              else pi_libc_buffer m i) = pi_libc_buffer m"
    by (rule ext) auto
  then show ?case using assms by (simp add: fputc_seq_def appended_def)
next
  case (snoc c cs)
  let ?k = "n + length cs"
  have k: "?k < 127" using snoc.prems by simp
  have prev: "fputc_seq e cs m = appended m n cs"
    using snoc by simp
  have idx: "pi_libc_buffer_index (appended m n cs) = of_nat ?k"
    by (simp add: appended_def)
  have ne: "pi_libc_buffer_index (appended m n cs) + 1 \<noteq> 128"
    using k of_nat_128 [of "Suc ?k"] by (simp add: idx)
  have c: "c \<noteq> 10" using snoc.prems by simp
  have s: "sint (of_nat ?k :: word_t) = int ?k"
    using k by (intro sint_small) simp
  have ia: "in_array (sint (pi_libc_buffer_index (appended m n cs)))"
    unfolding idx s using k by (simp add: in_array_def PI_LIBC_PUTC_BUFFER_SIZE_def)
  have tr: "map (\<lambda>j. Store (int n + int j) (ucast ((cs @ [c]) ! j))) [0..<length cs]
          = map (\<lambda>j. Store (int n + int j) (ucast (cs ! j))) [0..<length cs]"
    by (simp add: nth_append)
  have buf: "(\<lambda>i. if int n \<le> i \<and> i < int n + int (length cs)
              then ucast (cs ! nat (i - int n)) else pi_libc_buffer m i)
            (int n + int (length cs) := ucast c) =
        (\<lambda>i. if int n \<le> i \<and> i < int n + (1 + int (length cs))
              then ucast ((cs @ [c]) ! nat (i - int n)) else pi_libc_buffer m i)"
    by (rule ext) (auto simp add: nth_append nat_less_iff)
  show ?case
    unfolding fputc_seq_snoc prev fputc_safe_no_flush [OF ia ne c] idx s
    by (simp add: appended_def tr buf add.commute [of _ "1::word_t"])
qed

lemma appended_index: "pi_libc_buffer_index (appended m n cs) = of_nat (n + length cs)"
  by (simp add: appended_def)

lemma appended_trace:
  "trace (appended m n cs) =
     trace m @ map (\<lambda>j. Store (int n + int j) (ucast (cs ! j))) [0..<length cs]"
  by (simp add: appended_def)

lemma trap_calls_stores: "trap_calls (map (\<lambda>j. Store (f j) (g j)) js) = []"
  by (induction js) simp_all

lemma store_offsets_stores: "store_offsets (map (\<lambda>j. Store (f j) (g j)) js) = map f js"
  by (induction js) simp_all


lemma appended_trap_calls: "trap_calls (trace (appended m n cs)) = trap_calls (trace m)"
  by (simp add: appended_trace trap_calls_append trap_calls_stores)

text \<open>The flushing call after a run without flush, from an empty buffer.\<close>

lemma flush_mem_appended:
  assumes "length cs < 128" and "i \<le> length cs"
  shows "flush_mem (appended m 0 cs) c (int i) = ucast ((cs @ [c]) ! i)"
proof -
  have s0: "sint (of_nat (length cs) :: word_t) = int (length cs)"
    using assms(1) by (intro sint_small) simp
  have s1: "sint (of_nat (length cs) + 1 :: word_t) = int (length cs) + 1"
    using assms(1) by (rule sint_small_succ)
  show ?thesis
    using assms(2)
    by (auto simp add: flush_mem_def appended_def s0 s1 nth_append Let_def)
qed

lemma flush_len_appended:
  assumes "length cs < 128"
  shows "flush_len e (appended m 0 cs) =
           (if length cs < 127 then of_nat (length cs) + 1 else oob_index e 128 0 128)"
proof -
  have s1: "sint (of_nat (length cs) + 1 :: word_t) = int (length cs) + 1"
    using assms by (rule sint_small_succ)
  have ia: "in_array (sint (of_nat (length cs) + 1 :: word_t)) = (length cs < 127)"
    using assms by (rule in_array_small_succ)
  show ?thesis
  proof (cases "length cs < 127")
    case True
    then show ?thesis by (simp add: flush_len_def appended_def ia)
  next
    case False
    with assms have l: "length cs = 127" by simp
    have "(of_nat 127 + 1 :: word_t) = 128" by simp
    moreover have "sint (128 :: word_t) = 128" by simp
    ultimately show ?thesis
      using ia by (simp add: flush_len_def appended_def l)
  qed
qed

lemma write_payload_flush:
  assumes "length cs < 128"
  shows "write_payload baddr
           \<lparr>reg_a0 = r, reg_a1 = Block [fd, baddr, of_nat (length cs) + 1]\<rparr>
           (flush_mem (appended m 0 cs) c) = map ucast (cs @ [c])"
proof -
  have u: "unat (of_nat (length cs) + 1 :: word_t) = Suc (length cs)"
    using assms by (rule unat_small_succ)
  have "map (\<lambda>i. flush_mem (appended m 0 cs) c (int i)) [0..<Suc (length cs)]
        = map (\<lambda>i. ucast ((cs @ [c]) ! i)) [0..<Suc (length cs)]"
    using assms by (intro map_cong refl flush_mem_appended) auto
  also have "\<dots> = map ucast (cs @ [c])"
    by (rule nth_equalityI) (auto simp add: nth_append simp del: upt_Suc)
  finally show ?thesis
    by (simp add: write_payload_def u del: upt_Suc)
qed


lemma fputc_seq_then_flush:
  assumes idx: "pi_libc_buffer_index m = 0"
      and len: "length cs < 128"
      and nonl: "\<forall>x\<in>set cs. x \<noteq> 10"
      and fl: "length cs = 127 \<or> c = 10"
  shows "fputc_seq e (cs @ [c]) m =
           (appended m 0 cs)\<lparr>pi_libc_buffer := flush_mem (appended m 0 cs) c,
             pi_libc_buffer_index := 0,
             trace := trace (fputc_seq e cs m) @
               [Store (int (length cs)) (ucast c),
                Store (int (length cs) + 1) 0,
                Trap \<lparr>reg_a0 = 5,
                      reg_a1 = Block [1, buffer_addr e,
                        if length cs < 127 then of_nat (length cs) + 1
                        else oob_index e 128 0 128]\<rparr>
                  (flush_mem (appended m 0 cs) c)]\<rparr>"
proof -
  have prev: "fputc_seq e cs m = appended m 0 cs"
    using fputc_seq_no_flush [of m 0 cs e] idx len nonl by simp
  have s0: "sint (of_nat (length cs) :: word_t) = int (length cs)"
    using len by (intro sint_small) simp
  have s1: "sint (of_nat (length cs) + 1 :: word_t) = int (length cs) + 1"
    using len by (rule sint_small_succ)
  have ia: "in_array (sint (pi_libc_buffer_index (appended m 0 cs)))"
    using len by (simp add: appended_index in_array_small)
  have c: "pi_libc_buffer_index (appended m 0 cs) + 1 = 128 \<or> c = 10"
    using fl of_nat_128 [of "Suc (length cs)"] len by (auto simp add: appended_index)
  show ?thesis
    unfolding fputc_seq_snoc prev fputc_safe_flush [OF ia c] flush_len_appended [OF len]
    by (simp add: appended_index s0 s1)
qed

lemma take_no_newline:
  assumes "k \<le> length cs" and "\<forall>j<k. cs ! j \<noteq> (10::word_t)"
  shows "\<forall>x\<in>set (take k cs). x \<noteq> 10"
  using assms by (auto simp add: in_set_conv_nth)

lemma fputc_seq_capacity:
  assumes "pi_libc_buffer_index m = 0" and "length cs = 128" and "\<forall>x\<in>set (take 127 cs). x \<noteq> 10"
  shows "fputc_seq e cs m =
           (appended m 0 (take 127 cs))\<lparr>
             pi_libc_buffer := flush_mem (appended m 0 (take 127 cs)) (cs ! 127),
             pi_libc_buffer_index := 0,
             trace := trace (fputc_seq e (take 127 cs) m) @
               [Store 127 (ucast (cs ! 127)), Store 128 0,
                Trap \<lparr>reg_a0 = 5, reg_a1 = Block [1, buffer_addr e, oob_index e 128 0 128]\<rparr>
                  (flush_mem (appended m 0 (take 127 cs)) (cs ! 127))]\<rparr>"
proof -
  let ?pre = "take 127 cs"
  have lp: "length ?pre = 127" using assms(2) by simp
  have lp128: "length ?pre < 128" using lp by simp
  have split: "cs = ?pre @ [cs ! 127]"
    using assms(2) take_Suc_conv_app_nth [of 127 cs] by simp
  have fl: "length ?pre = 127 \<or> cs ! 127 = 10" using lp by simp
  note step = fputc_seq_then_flush [OF assms(1) lp128 assms(3) fl, of e]
  have "fputc_seq e cs m = fputc_seq e (?pre @ [cs ! 127]) m"
    using split by simp
  also note step
  finally show ?thesis using assms(2) by simp
qed

lemma fputc_safe_flush_iff:
  assumes "in_array (sint (pi_libc_buffer_index m))"
  shows "(trap_calls (trace (snd (pi_libc_fputc_safe e c s m))) \<noteq> trap_calls (trace m)) =
           (pi_libc_buffer_index m + 1 = PI_LIBC_PUTC_BUFFER_SIZE \<or> c = 10)"
proof (cases "pi_libc_buffer_index m + 1 = 128 \<or> c = 10")
  case True
  show ?thesis
    using True unfolding fputc_safe_flush [OF assms True]
    by (simp add: trap_calls_append PI_LIBC_PUTC_BUFFER_SIZE_def)
next
  case False
  then have ne: "pi_libc_buffer_index m + 1 \<noteq> 128" and c: "c \<noteq> 10" by simp_all
  show ?thesis
    using False unfolding fputc_safe_no_flush [OF assms ne c]
    by (simp add: trap_calls_append PI_LIBC_PUTC_BUFFER_SIZE_def)
qed

section \<open>The invariant of the console\<close>

lemma char_newline_iff:
  assumes "is_char c"
  shows "(ucast c = (10::byte)) = (c = 10)"
proof
  assume "c = 10"
  then show "ucast c = (10::byte)" by simp
next
  assume a: "ucast c = (10::byte)"
  have "uint (ucast c :: byte) = take_bit 8 (uint c)"
    by (simp add: unsigned_ucast_eq)
  with a have m: "uint c mod 256 = 10"
    by (simp add: take_bit_eq_mod)
  have "uint c = sint c mod 2 ^ 32"
    using uint_sint [of c] by (simp add: take_bit_eq_mod)
  then have "uint c mod 256 = sint c mod 256"
    by (simp add: mod_mod_cancel)
  with m have r: "sint c mod 256 = 10" by simp
  from assms have lo: "- 128 \<le> sint c" and hi: "sint c \<le> 255"
    by (simp_all add: is_char_def)
  have "sint c = 10"
  proof (cases "0 \<le> sint c")
    case True
    with hi have "sint c mod 256 = sint c" by simp
    with r show ?thesis by simp
  next
    case False
    with lo have "(sint c + 256) mod 256 = sint c + 256"
      by (intro mod_pos_pos_trivial) simp_all
    moreover have "(sint c + 256) mod 256 = sint c mod 256" by simp
    ultimately have "sint c mod 256 = sint c + 256" by simp
    with r lo show ?thesis by simp
  qed
  then have "word_of_int (sint c) = (word_of_int 10 :: word_t)" by simp
  then show "c = 10" by simp
qed

lemma pending_snoc: "pending (cs @ [c]) = pending_step (pending cs) c"
  by (simp add: pending_def)

lemma console_inv_step:
  assumes "console_inv p m"
  shows "console_inv (pending_step p c) (snd (pi_libc_fputc_safe e c s m))"
proof -
  let ?n = "length p"
  have n: "?n < 128" and idx: "pi_libc_buffer_index m = of_nat ?n"
    and buf: "map (\<lambda>i. pi_libc_buffer m (int i)) [0..<?n] = map ucast p"
    using assms by (simp_all add: console_inv_def)
  have cond: "(pi_libc_buffer_index m + 1 = 128) = (?n + 1 = 128)"
    using n of_nat_128 [of "Suc ?n"] by (simp add: idx)
  have ia: "in_array (sint (pi_libc_buffer_index m))"
    using n by (simp add: idx in_array_small)
  show ?thesis
  proof (cases "?n + 1 = 128 \<or> c = 10")
    case True
    then have fl: "pi_libc_buffer_index m + 1 = 128 \<or> c = 10" using cond by simp
    have "pending_step p c = []" using True by (simp add: pending_step_def)
    then show ?thesis
      unfolding fputc_safe_flush [OF ia fl] by (simp add: console_inv_def)
  next
    case False
    then have ne: "pi_libc_buffer_index m + 1 \<noteq> 128" and c: "c \<noteq> 10" using cond by simp_all
    have ps: "pending_step p c = p @ [c]" using False by (simp add: pending_step_def)
    have s0: "sint (of_nat ?n :: word_t) = int ?n"
      using n sint_small [of ?n] by simp
    have "map (\<lambda>i. if i = ?n then ucast c else pi_libc_buffer m (int i)) [0..<?n]
                = map (\<lambda>i. pi_libc_buffer m (int i)) [0..<?n]"
      by (rule map_cong) simp_all
    with buf have keep: "map (\<lambda>i. if i = ?n then ucast c else pi_libc_buffer m (int i)) [0..<?n]
                = map ucast p"
      by simp
    show ?thesis
      unfolding fputc_safe_no_flush [OF ia ne c] ps idx s0
      using n False by (simp add: console_inv_def keep add.commute [of _ "1::word_t"])
  qed
qed

lemma console_inv_init: "console_inv [] machine_init"
  by (simp add: console_inv_def machine_init_def)

lemma console_inv_reachable: "console_inv (pending cs) (fputc_seq e cs machine_init)"
proof (induction cs rule: rev_induct)
  case Nil
  show ?case by (simp add: pending_def fputc_seq_def console_inv_init)
next
  case (snoc c cs)
  then show ?case
    unfolding pending_snoc fputc_seq_snoc by (rule console_inv_step)
qed

section \<open>puts\<close>

lemma fputc_seq_Cons:
  "fputc_seq e (c # cs) m = fputc_seq e cs (snd (pi_libc_fputc_safe e c 0 m))"
  by (simp add: fputc_seq_def)

lemma puts_loop_feeds:
  "0 \<in> set s \<Longrightarrow>
   puts_loop e s m = Some (fputc_seq e (map ucast (takeWhile (\<lambda>c. c \<noteq> 0) s) @ [10]) m)"
proof (induction s arbitrary: m)
  case Nil
  then show ?case by simp
next
  case (Cons c s)
  show ?case
  proof (cases "c = 0")
    case True
    then show ?thesis by (simp add: fputc_seq_def)
  next
    case False
    with Cons.prems have "0 \<in> set s" by simp
    from Cons.IH [OF this] False show ?thesis
      by (simp add: fputc_seq_Cons)
  qed
qed

lemma puts_loop_no_nul: "0 \<notin> set s \<Longrightarrow> puts_loop e s m = None"
  by (induction s arbitrary: m) auto

section \<open>The loop of the platform exit, and strlen\<close>

lemma spin_forever_Some: "spin_forever u = Some y \<Longrightarrow> False"
  by (rule spin_forever.raw_induct [where P = "\<lambda>_ _. False"])

lemma spin_forever_None: "spin_forever u = None"
  using spin_forever_Some [of u] by (cases "spin_forever u") auto

lemma strlen_takeWhile:
  "0 \<in> set s \<Longrightarrow> strlen s = Some (length (takeWhile (\<lambda>c. c \<noteq> 0) s))"
  by (induction s) auto

lemma strlen_None: "0 \<notin> set s \<Longrightarrow> strlen s = None"
  by (induction s) auto

lemma strlen_less: "strlen s = Some n \<Longrightarrow> n < length s"
  by (induction s arbitrary: n) (auto split: if_splits)

section \<open>Flushes that stay inside the array\<close>

text \<open>
  With the first newline at a position \<open>k < 127\<close> the terminator goes to slot \<open>k + 1\<close> of
  the array, and in every layout the one write has the length \<open>k + 1\<close> and transmits the
  characters of calls \<open>0..k\<close>.
\<close>

lemma newline_flush_inside_array:
  assumes "pi_libc_buffer_index m = 0"
      and "k < length cs" and "k < 127"
      and "cs ! k = 10" and "\<forall>j<k. cs ! j \<noteq> 10"
  shows "trap_calls (trace (fputc_seq e (take k cs) m)) = trap_calls (trace m)
       \<and> (\<exists>mem. trace (fputc_seq e (take (Suc k) cs) m) =
                  trace (fputc_seq e (take k cs) m) @
                    [Store (int k) 10, Store (int k + 1) 0,
                     Trap \<lparr>reg_a0 = op_number SEMIHOSTING_SYS_WRITE,
                           reg_a1 = Block [1, buffer_addr e, of_nat (k + 1)]\<rparr> mem]
               \<and> write_payload (buffer_addr e)
                    \<lparr>reg_a0 = op_number SEMIHOSTING_SYS_WRITE,
                     reg_a1 = Block [1, buffer_addr e, of_nat (k + 1)]\<rparr> mem
                  = map ucast (take (Suc k) cs))
       \<and> trap_calls (trace (fputc_seq e (take (Suc k) cs) m)) =
           trap_calls (trace m) @
             [\<lparr>reg_a0 = op_number SEMIHOSTING_SYS_WRITE,
               reg_a1 = Block [1, buffer_addr e, of_nat (k + 1)]\<rparr>]
       \<and> unat (of_nat (k + 1) :: word_t) = k + 1
       \<and> length (map ucast (take (Suc k) cs) :: byte list) = k + 1
       \<and> last (map ucast (take (Suc k) cs) :: byte list) = 10
       \<and> pi_libc_buffer_index (fputc_seq e (take (Suc k) cs) m) = 0"
proof -
  let ?pre = "take k cs"
  have lp: "length ?pre = k" using assms(2) by simp
  have lp128: "length ?pre < 128" using lp assms(3) by simp
  have lp127: "length ?pre < 127" using lp assms(3) by simp
  have nonl: "\<forall>x\<in>set ?pre. x \<noteq> 10"
    using assms(2,5) by (intro take_no_newline) simp_all
  have split: "take (Suc k) cs = ?pre @ [10]"
    using assms(2,4) by (simp add: take_Suc_conv_app_nth)
  have prev: "fputc_seq e ?pre m = appended m 0 ?pre"
    using fputc_seq_no_flush [of m 0 ?pre e] assms(1) lp128 nonl by simp
  have fl: "length ?pre = 127 \<or> (10::word_t) = 10" by simp
  note step = fputc_seq_then_flush [OF assms(1) lp128 nonl fl, of e]
  have wk: "(of_nat (k + 1) :: word_t) = of_nat k + 1" by simp
  have c1: "trap_calls (trace (fputc_seq e ?pre m)) = trap_calls (trace m)"
    by (simp add: prev appended_trap_calls)
  have c2: "trace (fputc_seq e (take (Suc k) cs) m) =
                  trace (fputc_seq e ?pre m) @
                    [Store (int k) 10, Store (int k + 1) 0,
                     Trap \<lparr>reg_a0 = op_number SEMIHOSTING_SYS_WRITE,
                           reg_a1 = Block [1, buffer_addr e, of_nat (k + 1)]\<rparr>
                       (flush_mem (appended m 0 ?pre) 10)]"
    unfolding split step using assms(2,3) by simp
  have c3: "write_payload (buffer_addr e)
                    \<lparr>reg_a0 = op_number SEMIHOSTING_SYS_WRITE,
                     reg_a1 = Block [1, buffer_addr e, of_nat (k + 1)]\<rparr>
                    (flush_mem (appended m 0 ?pre) 10)
                  = map ucast (take (Suc k) cs)"
    unfolding split wk
    using write_payload_flush [OF lp128, of "buffer_addr e" _ 1 m 10] assms(2)
    by simp
  have c4: "trap_calls (trace (fputc_seq e (take (Suc k) cs) m)) =
           trap_calls (trace m) @
             [\<lparr>reg_a0 = op_number SEMIHOSTING_SYS_WRITE,
               reg_a1 = Block [1, buffer_addr e, of_nat (k + 1)]\<rparr>]"
    unfolding c2 by (simp add: trap_calls_append c1)
  have c5: "unat (of_nat (k + 1) :: word_t) = k + 1"
    using assms(3) by (intro unat_small) simp
  have c6: "length (map ucast (take (Suc k) cs) :: byte list) = k + 1"
    using assms(2) by simp
  have c7: "last (map ucast (take (Suc k) cs) :: byte list) = 10"
    unfolding split by simp
  have c8: "pi_libc_buffer_index (fputc_seq e (take (Suc k) cs) m) = 0"
    unfolding split step by simp
  from c1 c2 c3 c4 c5 c6 c7 c8 show ?thesis by blast
qed

text \<open>
  A newline with the cursor at \<open>n < 127\<close>: the terminator is stored in the array, at slot
  \<open>n + 1\<close>, before the trap, and the length passed is \<open>n + 1\<close>, so it is not transmitted.
\<close>

lemma flush_terminator_inside_array:
  assumes "pi_libc_buffer_index m = of_nat n" and "n < 127" and "c = 10"
  shows "\<exists>mem.
           trace (snd (pi_libc_fputc_safe e c stream m)) =
             trace m @
               [Store (int n) (ucast c), Store (int n + 1) 0,
                Trap \<lparr>reg_a0 = op_number SEMIHOSTING_SYS_WRITE,
                      reg_a1 = Block [1, buffer_addr e, of_nat (n + 1)]\<rparr> mem]
         \<and> mem (int n) = ucast c
         \<and> mem (int n + 1) = 0
         \<and> in_array (int n)
         \<and> in_array (int n + 1)
         \<and> pi_libc_buffer (snd (pi_libc_fputc_safe e c stream m)) (int n + 1) = 0
         \<and> unat (of_nat (n + 1) :: word_t) = n + 1
         \<and> write_payload (buffer_addr e)
              \<lparr>reg_a0 = op_number SEMIHOSTING_SYS_WRITE,
               reg_a1 = Block [1, buffer_addr e, of_nat (n + 1)]\<rparr> mem
            = map (\<lambda>i. mem (int i)) [0..<n + 1]
         \<and> length (write_payload (buffer_addr e)
              \<lparr>reg_a0 = op_number SEMIHOSTING_SYS_WRITE,
               reg_a1 = Block [1, buffer_addr e, of_nat (n + 1)]\<rparr> mem) = n + 1"
proof -
  let ?mem = "flush_mem m c"
  have n128: "n < 128" using assms(2) by simp
  have s0: "sint (pi_libc_buffer_index m) = int n"
    using assms(1) n128 sint_small [of n] by simp
  have s1: "sint (pi_libc_buffer_index m + 1) = int n + 1"
    using assms(1) n128 sint_small_succ [of n] by simp
  have u: "unat (of_nat (n + 1) :: word_t) = n + 1"
    using n128 by (intro unat_small) simp
  have fl: "pi_libc_buffer_index m + 1 = 128 \<or> c = 10"
    using assms by simp
  have ia: "in_array (sint (pi_libc_buffer_index m))"
    using assms(1,2) by (simp add: in_array_small)
  have ia1: "in_array (sint (pi_libc_buffer_index m + 1))"
    using assms(1,2) in_array_small_succ [of n] by simp
  have fm: "flush_mem m c = (pi_libc_buffer m)(int n := ucast c, int n + 1 := 0)"
    using ia1 by (simp add: flush_mem_def s0 s1 Let_def)
  have fln: "flush_len e m = pi_libc_buffer_index m + 1"
    using ia1 by (simp add: flush_len_def)
  have w: "(of_nat (n + 1) :: word_t) = pi_libc_buffer_index m + 1"
    using assms(1) by simp
  have c1: "trace (snd (pi_libc_fputc_safe e c stream m)) =
             trace m @
               [Store (int n) (ucast c), Store (int n + 1) 0,
                Trap \<lparr>reg_a0 = op_number SEMIHOSTING_SYS_WRITE,
                      reg_a1 = Block [1, buffer_addr e, of_nat (n + 1)]\<rparr> ?mem]"
    unfolding fputc_safe_flush [OF ia fl] w fln by (simp add: s0 s1)
  have c2: "?mem (int n) = ucast c" by (simp add: fm)
  have c3: "?mem (int n + 1) = 0" by (simp add: fm)
  have c4: "pi_libc_buffer (snd (pi_libc_fputc_safe e c stream m)) (int n + 1) = 0"
    unfolding fputc_safe_flush [OF ia fl] by (simp add: c3)
  have c5: "write_payload (buffer_addr e)
              \<lparr>reg_a0 = op_number SEMIHOSTING_SYS_WRITE,
               reg_a1 = Block [1, buffer_addr e, of_nat (n + 1)]\<rparr> ?mem
            = map (\<lambda>i. ?mem (int i)) [0..<n + 1]"
    unfolding write_payload_def using u by (simp del: upt_Suc of_nat_Suc of_nat_add)
  have c6: "length (write_payload (buffer_addr e)
              \<lparr>reg_a0 = op_number SEMIHOSTING_SYS_WRITE,
               reg_a1 = Block [1, buffer_addr e, of_nat (n + 1)]\<rparr> ?mem) = n + 1"
    unfolding c5 by simp
  have c7: "in_array (int n)"
    using assms(2) by (simp add: in_array_def PI_LIBC_PUTC_BUFFER_SIZE_def)
  have c8: "in_array (int n + 1)"
    using assms(2) by (simp add: in_array_def PI_LIBC_PUTC_BUFFER_SIZE_def)
  from c1 c2 c3 c4 u c5 c6 c7 c8 show ?thesis by blast
qed

section \<open>The claims\<close>



text \<open>
  C3.  The claim asks that the terminator store of every flushing call stay inside the
  128-byte array.  It does not: after 128 letters from the initial state the last call
  stores its character at slot 127, the last one of the array, and the terminator at
  offset 128, past the end.
\<close>

theorem fputc_safe_terminator_store_past_array:
  "(\<exists>call mem.
      trace (fputc_seq e (replicate 128 97) machine_init) =
        trace (fputc_seq e (replicate 127 97) machine_init) @
          [Store 127 97, Store 128 0, Trap call mem])
   \<and> store_offsets (trace (fputc_seq e (replicate 128 97) machine_init)) =
        map int [0..<128] @ [128]
   \<and> in_array 127 \<and> \<not> in_array 128"
proof -
  let ?cs = "replicate 128 97 :: word_t list"
  have h1: "pi_libc_buffer_index machine_init = 0" by (simp add: machine_init_def)
  have h2: "length ?cs = 128" by simp
  have h3: "\<forall>x\<in>set (take 127 ?cs). x \<noteq> 10" by simp
  note cap = fputc_seq_capacity [OF h1 h2 h3, of e]
  have tk: "take 127 ?cs = replicate 127 97" by simp
  have nth: "?cs ! 127 = 97" by simp
  have u: "ucast (97 :: word_t) = (97 :: byte)" by simp
  have c1: "trace (fputc_seq e ?cs machine_init) =
        trace (fputc_seq e (replicate 127 97) machine_init) @
          [Store 127 97, Store 128 0,
           Trap \<lparr>reg_a0 = 5, reg_a1 = Block [1, buffer_addr e, oob_index e 128 0 128]\<rparr>
             (flush_mem (appended machine_init 0 (replicate 127 97)) 97)]"
    using cap unfolding tk nth u by simp
  have prev: "fputc_seq e (replicate 127 97) machine_init = appended machine_init 0 (replicate 127 97)"
    using fputc_seq_no_flush [of machine_init 0 "replicate 127 97" e] h1 by simp
  have "store_offsets (trace (appended machine_init 0 (replicate 127 97))) = map int [0..<127]"
    by (simp add: appended_trace store_offsets_append store_offsets_stores machine_init_def)
  moreover have "[0..<128::nat] = [0..<127] @ [127]"
    using upt_Suc_append [of 0 127] by (simp del: upt_Suc)
  ultimately have c2: "store_offsets (trace (fputc_seq e ?cs machine_init)) = map int [0..<128] @ [128]"
    unfolding c1 prev by (simp add: store_offsets_append)
  have c3: "in_array 127 \<and> \<not> in_array 128"
    by (simp add: in_array_def PI_LIBC_PUTC_BUFFER_SIZE_def)
  from c1 c2 c3 show ?thesis by blast
qed

text \<open>
  C4.  In every state reached from the initial one by \<open>put_char\<close> calls the cursor is
  between 0 and the capacity, it is the number of characters appended and not yet
  flushed, and these stand in the slots below it, in order.  The next call issues a
  trap exactly when the cursor reaches the capacity or the character is a newline; it
  is one \<open>SYS_WRITE\<close>, and the cursor is 0 after it; otherwise the character goes into
  the slot at the cursor and the cursor moves one up.  For a character value, the byte
  stored is a newline exactly when the argument is.  A sequence shorter than the
  capacity and without newline issues no trap.
\<close>

theorem console_cursor_invariant:
  "0 \<le> sint (pi_libc_buffer_index (fputc_seq e cs machine_init))
   \<and> sint (pi_libc_buffer_index (fputc_seq e cs machine_init)) \<le> sint PI_LIBC_PUTC_BUFFER_SIZE
   \<and> in_array (sint (pi_libc_buffer_index (fputc_seq e cs machine_init)))
   \<and> sint (pi_libc_buffer_index (fputc_seq e cs machine_init)) = int (length (pending cs))
   \<and> map (\<lambda>i. pi_libc_buffer (fputc_seq e cs machine_init) (int i)) [0..<length (pending cs)]
       = map ucast (pending cs)
   \<and> ((trap_calls (trace (snd (pi_libc_fputc_safe e c 0 (fputc_seq e cs machine_init))))
          \<noteq> trap_calls (trace (fputc_seq e cs machine_init)))
        = (pi_libc_buffer_index (fputc_seq e cs machine_init) + 1 = PI_LIBC_PUTC_BUFFER_SIZE
           \<or> c = 10))
   \<and> (pi_libc_buffer_index (fputc_seq e cs machine_init) + 1 = PI_LIBC_PUTC_BUFFER_SIZE \<or> c = 10
        \<longrightarrow> (\<exists>blk. trap_calls (trace (snd (pi_libc_fputc_safe e c 0 (fputc_seq e cs machine_init))))
                    = trap_calls (trace (fputc_seq e cs machine_init)) @
                        [\<lparr>reg_a0 = op_number SEMIHOSTING_SYS_WRITE, reg_a1 = Block blk\<rparr>])
          \<and> pi_libc_buffer_index (snd (pi_libc_fputc_safe e c 0 (fputc_seq e cs machine_init))) = 0)
   \<and> (\<not> (pi_libc_buffer_index (fputc_seq e cs machine_init) + 1 = PI_LIBC_PUTC_BUFFER_SIZE
           \<or> c = 10)
        \<longrightarrow> pi_libc_buffer_index (snd (pi_libc_fputc_safe e c 0 (fputc_seq e cs machine_init)))
              = pi_libc_buffer_index (fputc_seq e cs machine_init) + 1
          \<and> pi_libc_buffer (snd (pi_libc_fputc_safe e c 0 (fputc_seq e cs machine_init)))
              (sint (pi_libc_buffer_index (fputc_seq e cs machine_init))) = ucast c)
   \<and> (is_char c \<longrightarrow> (ucast c = (10::byte)) = (c = 10))
   \<and> (length cs < 128 \<and> (\<forall>x\<in>set cs. x \<noteq> 10)
        \<longrightarrow> trap_calls (trace (fputc_seq e cs machine_init)) = [])"
proof -
  let ?M = "fputc_seq e cs machine_init"
  let ?n = "length (pending cs)"
  have inv: "console_inv (pending cs) ?M" by (rule console_inv_reachable)
  then have n: "?n < 128" and idx: "pi_libc_buffer_index ?M = of_nat ?n"
    and buf: "map (\<lambda>i. pi_libc_buffer ?M (int i)) [0..<?n] = map ucast (pending cs)"
    by (simp_all add: console_inv_def)
  have s: "sint (pi_libc_buffer_index ?M) = int ?n"
    using n sint_small [of ?n] by (simp add: idx)
  have c1: "0 \<le> sint (pi_libc_buffer_index ?M)" by (simp add: s)
  have c2: "sint (pi_libc_buffer_index ?M) \<le> sint PI_LIBC_PUTC_BUFFER_SIZE"
    using n by (simp add: s PI_LIBC_PUTC_BUFFER_SIZE_def)
  have c3: "in_array (sint (pi_libc_buffer_index ?M))"
    using n by (simp add: s in_array_def PI_LIBC_PUTC_BUFFER_SIZE_def)
  have ia: "in_array (sint (pi_libc_buffer_index ?M))"
    using n by (simp add: s in_array_def PI_LIBC_PUTC_BUFFER_SIZE_def)
  note c5 = fputc_safe_flush_iff [OF ia, of e c 0]
  have c6: "(\<exists>blk. trap_calls (trace (snd (pi_libc_fputc_safe e c 0 ?M)))
                    = trap_calls (trace ?M) @
                        [\<lparr>reg_a0 = op_number SEMIHOSTING_SYS_WRITE, reg_a1 = Block blk\<rparr>])
          \<and> pi_libc_buffer_index (snd (pi_libc_fputc_safe e c 0 ?M)) = 0"
    if "pi_libc_buffer_index ?M + 1 = PI_LIBC_PUTC_BUFFER_SIZE \<or> c = 10"
  proof -
    from that have fl: "pi_libc_buffer_index ?M + 1 = 128 \<or> c = 10"
      by (simp add: PI_LIBC_PUTC_BUFFER_SIZE_def)
    show ?thesis
      unfolding fputc_safe_flush [OF ia fl] by (simp add: trap_calls_append)
  qed
  have c7: "pi_libc_buffer_index (snd (pi_libc_fputc_safe e c 0 ?M))
              = pi_libc_buffer_index ?M + 1
          \<and> pi_libc_buffer (snd (pi_libc_fputc_safe e c 0 ?M))
              (sint (pi_libc_buffer_index ?M)) = ucast c"
    if "\<not> (pi_libc_buffer_index ?M + 1 = PI_LIBC_PUTC_BUFFER_SIZE \<or> c = 10)"
  proof -
    from that have ne: "pi_libc_buffer_index ?M + 1 \<noteq> 128" and c: "c \<noteq> 10"
      by (simp_all add: PI_LIBC_PUTC_BUFFER_SIZE_def)
    show ?thesis
      unfolding fputc_safe_no_flush [OF ia ne c] by simp
  qed
  have c8: "(ucast c = (10::byte)) = (c = 10)" if "is_char c"
    using that by (rule char_newline_iff)
  have c9: "trap_calls (trace ?M) = []" if "length cs < 128 \<and> (\<forall>x\<in>set cs. x \<noteq> 10)"
  proof -
    have "?M = appended machine_init 0 cs"
      using that fputc_seq_no_flush [of machine_init 0 cs e] by (simp add: machine_init_def)
    then show ?thesis
      by (simp add: appended_trap_calls) (simp add: machine_init_def)
  qed
  from c1 c2 c3 s buf c5 c6 c7 c8 c9 show ?thesis by blast
qed

text \<open>
  After \<open>h i\<close> the cursor is 2 and nothing was written; a newline then resets it, and
  any other character moves it to 3.
\<close>

theorem console_cursor_invariant_witness:
  "sint (pi_libc_buffer_index
           (fputc_seq \<lparr>host = (\<lambda>tr. 0), buffer_addr = 0x1C000000, oob_index = index_after_array\<rparr> [104, 105] machine_init)) = 2
   \<and> trap_calls (trace
           (fputc_seq \<lparr>host = (\<lambda>tr. 0), buffer_addr = 0x1C000000, oob_index = index_after_array\<rparr> [104, 105] machine_init)) = []
   \<and> pi_libc_buffer_index (snd (pi_libc_fputc_safe \<lparr>host = (\<lambda>tr. 0), buffer_addr = 0x1C000000, oob_index = index_after_array\<rparr>
           10 0
           (fputc_seq \<lparr>host = (\<lambda>tr. 0), buffer_addr = 0x1C000000, oob_index = index_after_array\<rparr> [104, 105] machine_init))) = 0
   \<and> pi_libc_buffer_index (snd (pi_libc_fputc_safe \<lparr>host = (\<lambda>tr. 0), buffer_addr = 0x1C000000, oob_index = index_after_array\<rparr>
           33 0
           (fputc_seq \<lparr>host = (\<lambda>tr. 0), buffer_addr = 0x1C000000, oob_index = index_after_array\<rparr> [104, 105] machine_init))) = 3
   \<and> is_char 10"
proof -
  let ?e = "\<lparr>host = (\<lambda>tr. 0), buffer_addr = 0x1C000000, oob_index = index_after_array\<rparr>"
  let ?cs = "[104, 105] :: word_t list"
  let ?M = "fputc_seq ?e ?cs machine_init"
  note t = console_cursor_invariant [of ?e ?cs 10]
  note t' = console_cursor_invariant [of ?e ?cs 33]
  have p: "pending ?cs = ?cs" by (simp add: pending_def pending_step_def)
  have h1: "length ?cs < 128 \<and> (\<forall>x\<in>set ?cs. x \<noteq> 10)" by simp
  have h2: "pi_libc_buffer_index ?M + 1 = PI_LIBC_PUTC_BUFFER_SIZE \<or> (10::word_t) = 10" by simp
  have h3: "is_char 10" by (simp add: is_char_def)
  have a: "sint (pi_libc_buffer_index ?M) = int (length (pending ?cs))"
    using t by blast
  then have a': "sint (pi_libc_buffer_index ?M) = 2" by (simp add: p)
  then have "word_of_int (sint (pi_libc_buffer_index ?M)) = (word_of_int 2 :: word_t)" by simp
  then have i: "pi_libc_buffer_index ?M = 2" by simp
  have h4: "\<not> (pi_libc_buffer_index ?M + 1 = PI_LIBC_PUTC_BUFFER_SIZE \<or> (33::word_t) = 10)"
    by (simp add: i PI_LIBC_PUTC_BUFFER_SIZE_def)
  have b: "trap_calls (trace ?M) = []"
    using t h1 by blast
  have c: "pi_libc_buffer_index (snd (pi_libc_fputc_safe ?e 10 0 ?M)) = 0"
    using t h2 by blast
  have d: "pi_libc_buffer_index (snd (pi_libc_fputc_safe ?e 33 0 ?M)) = pi_libc_buffer_index ?M + 1"
    using t' h4 by blast
  show ?thesis using a' b c d h3 by (simp add: i)
qed

text \<open>
  C5.  \<open>__pi_init_platform_exit(status)\<close> issues exactly one trap, \<open>SYS_EXIT\<close> (0x18),
  with the scalar 0x20026 when \<open>status\<close> is 0 and 0x20023 otherwise, and control does
  not return, whatever the host leaves in a0.
\<close>

theorem platform_exit_one_trap:
  "trace (fst (pi_init_platform_exit e status m)) =
     trace m @
       [Trap \<lparr>reg_a0 = op_number SEMIHOSTING_SYS_EXIT,
               reg_a1 = Scalar (if status = 0 then SEMIHOST_EXIT_SUCCESS
                                else SEMIHOST_EXIT_ERROR)\<rparr>
          (pi_libc_buffer m)]
   \<and> trap_calls (trace (fst (pi_init_platform_exit e status m))) =
       trap_calls (trace m) @
         [\<lparr>reg_a0 = 0x18, reg_a1 = Scalar (if status = 0 then 0x20026 else 0x20023)\<rparr>]
   \<and> snd (pi_init_platform_exit e status m) = None"
  by (simp add: pi_init_platform_exit_def pi_libc_semihost_exit_def pi_libc_semihost_def
      SEMIHOST_EXIT_SUCCESS_def SEMIHOST_EXIT_ERROR_def Let_def spin_forever_None
      trap_calls_append)

text \<open>
  C6.  The claim has every flush store the terminator in the buffer and pass the cursor
  as the length.  For a flush entered with the cursor below 127 this holds in every
  layout (\<open>flush_terminator_inside_array\<close>).  A call entered with the cursor at 127
  flushes whatever its character: it stores the character at slot 127 and the
  terminator at offset 128, outside the array, so that the array holds no terminator
  after the call, and the length it passes is what that store left in the index: 0 with
  the index right behind the array, where the cursor had reached 128.
\<close>

theorem fputc_safe_terminator_outside_buffer:
  "trace (snd (pi_libc_fputc_safe e c stream
                 \<lparr>pi_libc_buffer = f, pi_libc_buffer_index = 127, trace = []\<rparr>)) =
     [Store 127 (ucast c), Store 128 0,
      Trap \<lparr>reg_a0 = op_number SEMIHOSTING_SYS_WRITE,
            reg_a1 = Block [1, buffer_addr e, oob_index e 128 0 128]\<rparr> (f(127 := ucast c))]
   \<and> pi_libc_buffer (snd (pi_libc_fputc_safe e c stream
                 \<lparr>pi_libc_buffer = f, pi_libc_buffer_index = 127, trace = []\<rparr>)) =
       f(127 := ucast c)
   \<and> in_array 127 \<and> \<not> in_array 128
   \<and> index_after_array 128 0 128 = 0"
proof -
  let ?m = "\<lparr>pi_libc_buffer = f, pi_libc_buffer_index = 127, trace = []\<rparr>"
  have s0: "sint (127 :: word_t) = 127" by simp
  have s1: "sint (128 :: word_t) = 128" by simp
  have ia: "in_array (sint (pi_libc_buffer_index ?m))"
    by (simp add: in_array_def PI_LIBC_PUTC_BUFFER_SIZE_def)
  have fl: "pi_libc_buffer_index ?m + 1 = 128 \<or> c = 10" by simp
  have na: "\<not> in_array 128" and a127: "in_array 127"
    by (simp_all add: in_array_def PI_LIBC_PUTC_BUFFER_SIZE_def)
  have fm: "flush_mem ?m c = f(127 := ucast c)"
    using na by (simp add: flush_mem_def Let_def)
  have ln: "flush_len e ?m = oob_index e 128 0 128"
    using na by (simp add: flush_len_def)
  have c1: "trace (snd (pi_libc_fputc_safe e c stream ?m)) =
     [Store 127 (ucast c), Store 128 0,
      Trap \<lparr>reg_a0 = op_number SEMIHOSTING_SYS_WRITE,
            reg_a1 = Block [1, buffer_addr e, oob_index e 128 0 128]\<rparr> (f(127 := ucast c))]"
    unfolding fputc_safe_flush [OF ia fl] fm ln by simp
  have c2: "pi_libc_buffer (snd (pi_libc_fputc_safe e c stream ?m)) = f(127 := ucast c)"
    unfolding fputc_safe_flush [OF ia fl] fm by simp
  from c1 c2 a127 na index_after_array_capacity show ?thesis by blast
qed

text \<open>
  C7.  On a NUL-terminated string, \<open>puts\<close> returns 0 after as many \<open>put_char\<close> calls as
  the string has characters before its NUL, in order, and one more for a newline.  For
  the empty string this is the single call for the newline; from the initial state it
  writes the one byte.
\<close>

theorem puts_feeds_chars_then_newline:
  assumes "0 \<in> set s"
  shows "puts e s m =
           Some (0, fputc_seq e (map ucast (takeWhile (\<lambda>c. c \<noteq> 0) s) @ [10]) m)
       \<and> puts e (0 # rest) m = Some (0, snd (pi_libc_fputc_safe e 10 0 m))
       \<and> (\<exists>m' mem. puts e (0 # rest) machine_init = Some (0, m')
              \<and> trace m' =
                   [Store 0 10, Store 1 0,
                    Trap \<lparr>reg_a0 = op_number SEMIHOSTING_SYS_WRITE,
                          reg_a1 = Block [1, buffer_addr e, 1]\<rparr> mem]
              \<and> write_payload (buffer_addr e)
                   \<lparr>reg_a0 = op_number SEMIHOSTING_SYS_WRITE,
                    reg_a1 = Block [1, buffer_addr e, 1]\<rparr> mem = [10])"
proof -
  have c1: "puts e s m =
           Some (0, fputc_seq e (map ucast (takeWhile (\<lambda>c. c \<noteq> 0) s) @ [10]) m)"
    using puts_loop_feeds [OF assms] by (simp add: puts_def)
  have c2: "puts e (0 # rest) m = Some (0, snd (pi_libc_fputc_safe e 10 0 m))" for m
    by (simp add: puts_def)
  have fl: "pi_libc_buffer_index machine_init + 1 = 128 \<or> (10::word_t) = 10" by simp
  have ia: "in_array (sint (pi_libc_buffer_index machine_init))"
    by (simp add: machine_init_def in_array_def PI_LIBC_PUTC_BUFFER_SIZE_def)
  have ln: "flush_len e machine_init = 1"
    by (simp add: flush_len_def machine_init_def in_array_def PI_LIBC_PUTC_BUFFER_SIZE_def)
  let ?mem = "flush_mem machine_init 10"
  let ?call = "\<lparr>reg_a0 = op_number SEMIHOSTING_SYS_WRITE,
                 reg_a1 = Block [1, buffer_addr e, 1]\<rparr>"
  have t: "trace (snd (pi_libc_fputc_safe e 10 0 machine_init)) =
             [Store 0 10, Store 1 0, Trap ?call ?mem]"
    unfolding fputc_safe_flush [OF ia fl] ln by (simp add: machine_init_def)
  have p: "write_payload (buffer_addr e) ?call ?mem = [10]"
    by (simp add: write_payload_def flush_mem_def machine_init_def in_array_def
        PI_LIBC_PUTC_BUFFER_SIZE_def)
  have c3: "\<exists>m' mem. puts e (0 # rest) machine_init = Some (0, m')
              \<and> trace m' = [Store 0 10, Store 1 0, Trap ?call mem]
              \<and> write_payload (buffer_addr e) ?call mem = [10]"
    using c2 [of machine_init] t p by blast
  from c1 c2 c3 show ?thesis by blast
qed

text \<open>The string \<open>hi\<close>.\<close>

theorem puts_feeds_chars_then_newline_witness:
  "puts \<lparr>host = (\<lambda>tr. 0), buffer_addr = 0x1C000000, oob_index = index_after_array\<rparr> [104, 105, 0] machine_init =
     Some (0, fputc_seq \<lparr>host = (\<lambda>tr. 0), buffer_addr = 0x1C000000, oob_index = index_after_array\<rparr> [104, 105, 10]
                machine_init)"
proof -
  have h: "0 \<in> set [104, 105, 0 :: byte]" by simp
  from puts_feeds_chars_then_newline [OF h, of "\<lparr>host = (\<lambda>tr. 0), buffer_addr = 0x1C000000, oob_index = index_after_array\<rparr>"
      machine_init]
  show ?thesis by simp
qed

text \<open>
  C8.  \<open>put_char\<close> returns 0 for every character and every state, and neither its
  result nor the state it leaves depends on the host: with any other host \<open>h\<close>, so with
  any other byte count returned for the flush, the call gives the same.
\<close>

theorem fputc_safe_ignores_host:
  "fst (pi_libc_fputc_safe e c stream m) = 0
   \<and> pi_libc_fputc_safe (e\<lparr>host := h\<rparr>) c stream m = pi_libc_fputc_safe e c stream m"
  by (simp add: pi_libc_fputc_safe_def Let_def pi_libc_write_def pi_libc_semihost_write_def
      pi_libc_semihost_def store_buffer_def)

text \<open>
  C9.  For a NUL-terminated name inside the 32-bit address space,
  \<open>__pi_libc_semihost_open\<close> returns after one trap \<open>SYS_OPEN\<close> whose block is
  \<open>{address of name, mode, len}\<close> with \<open>len\<close> equal to \<open>strlen(name)\<close>, the number of bytes
  before the first NUL; \<open>len\<close> is 0 exactly for the empty name.
\<close>

theorem semihost_open_block:
  assumes "0 \<in> set name" and "length name \<le> 2 ^ 32"
  shows "\<exists>r m' len.
           pi_libc_semihost_open e name_addr name mode m = Some (r, m')
         \<and> trace m' = trace m @
             [Trap \<lparr>reg_a0 = op_number SEMIHOSTING_SYS_OPEN,
                     reg_a1 = Block [name_addr, mode, len]\<rparr> (pi_libc_buffer m)]
         \<and> strlen name = Some (unat len)
         \<and> unat len = length (takeWhile (\<lambda>c. c \<noteq> 0) name)
         \<and> (hd name = 0 \<longleftrightarrow> len = 0)"
proof -
  let ?n = "length (takeWhile (\<lambda>c. c \<noteq> 0) name)"
  have sl: "strlen name = Some ?n"
    using assms(1) by (rule strlen_takeWhile)
  then have "?n < length name" by (rule strlen_less)
  with assms(2) have "?n < 2 ^ 32" by simp
  then have u: "unat (of_nat ?n :: word_t) = ?n" by (rule unat_small)
  have ne: "name \<noteq> []" using assms(1) by auto
  have z: "(hd name = 0) = ((of_nat ?n :: word_t) = 0)"
    using ne u by (cases name) (auto simp add: unat_eq_0 [symmetric] simp del: unat_eq_0)
  show ?thesis
    using sl u z
    by (simp add: pi_libc_semihost_open_def pi_libc_semihost_def Let_def)
qed

text \<open>The name \<open>a.txt\<close>: the third word is 5.\<close>

theorem semihost_open_block_witness:
  "\<exists>r m'. pi_libc_semihost_open \<lparr>host = (\<lambda>tr. 3), buffer_addr = 0x1C000000, oob_index = index_elsewhere\<rparr>
             0x1C001000 [97, 46, 116, 120, 116, 0] 4 machine_init = Some (r, m')
         \<and> trace m' = [Trap \<lparr>reg_a0 = 1, reg_a1 = Block [0x1C001000, 4, 5]\<rparr> (\<lambda>i. 0)]"
proof -
  let ?e = "\<lparr>host = (\<lambda>tr. 3), buffer_addr = 0x1C000000, oob_index = index_elsewhere\<rparr>"
  let ?name = "[97, 46, 116, 120, 116, 0] :: byte list"
  have h1: "0 \<in> set ?name" by simp
  have h2: "length ?name \<le> 2 ^ 32" by simp
  from semihost_open_block [OF h1 h2, of ?e "0x1C001000" 4 machine_init]
  obtain r m' len where
    a: "pi_libc_semihost_open ?e 0x1C001000 ?name 4 machine_init = Some (r, m')"
    and b: "trace m' = trace machine_init @
             [Trap \<lparr>reg_a0 = op_number SEMIHOSTING_SYS_OPEN,
                     reg_a1 = Block [0x1C001000, 4, len]\<rparr> (pi_libc_buffer machine_init)]"
    and c: "unat len = length (takeWhile (\<lambda>c. c \<noteq> 0) ?name)"
    by blast
  from c have "unat len = 5" by simp
  then have "of_nat (unat len) = (of_nat 5 :: word_t)" by simp
  then have "len = 5" by simp
  with a b show ?thesis by (simp add: machine_init_def)
qed

text \<open>
  C10.  \<open>__pi_libc_semihost_write(fd, buf, N)\<close> issues one trap \<open>SYS_WRITE\<close> whose block
  is \<open>{fd, buf, N}\<close>; a host that decodes the block gets the three inputs back.
\<close>

theorem semihost_write_block:
  "trace (snd (pi_libc_semihost_write e fd buf len m)) =
     trace m @ [Trap \<lparr>reg_a0 = op_number SEMIHOSTING_SYS_WRITE, reg_a1 = Block [fd, buf, len]\<rparr>
                  (pi_libc_buffer m)]
   \<and> mock_decode3 \<lparr>reg_a0 = op_number SEMIHOSTING_SYS_WRITE, reg_a1 = Block [fd, buf, len]\<rparr>
       = Some (fd, buf, len)
   \<and> trap_calls (trace (snd (pi_libc_semihost_write e 1 buf len m))) =
       trap_calls (trace m) @ [\<lparr>reg_a0 = 5, reg_a1 = Block [1, buf, len]\<rparr>]"
  by (simp add: pi_libc_semihost_write_def pi_libc_semihost_def Let_def mock_decode3_def
      trap_calls_append)

end
